theory Spec2Isabelle
  imports Main "HOL-Library.AList"
begin

section \<open>Python values used by \<open>qubesmgmt/app.py\<close>\<close>

text \<open>
  The module is read with the semantics of Python 3. A \<open>bytes\<close> object is a list of
  8-bit characters. A \<open>str\<close> object is modelled as a list of characters as well, a
  character standing for a code point below 256; every operation the module applies to
  a \<open>str\<close> (concatenation, \<open>encode('ascii')\<close>, use as a dictionary key) treats a code
  point above 127 the same way whatever its value. The two kinds of string never compare
  equal in Python 3, hence the tagged type \<open>pyval\<close> for dictionary keys and values.
\<close>

type_synonym bytes = "char list"
type_synonym str = "char list"

datatype pyval = Str str | Bytes bytes

text \<open>
  The text that \<open>bytes.decode()\<close> returns is kept as the list of its code points, since
  UTF-8 reaches code points far above 255; the module only stores it in an exception.
\<close>

type_synonym codepoints = "nat list"

text \<open>
  The exceptions the module raises itself or lets through. \<open>QubesException\<close> holds its
  two arguments: the format string and the decoded text.
\<close>

datatype exn =
    AttributeError
  | TypeError
  | ValueError
  | UnicodeEncodeError
  | UnicodeDecodeError
  | KeyError pyval
  | IOError str
  | QubesException str codepoints
  | OtherError str

definition QUBESD_SOCK :: str where
  "QUBESD_SOCK = ''/var/run/qubesd.sock''"

definition BUF_SIZE :: nat where
  "BUF_SIZE = 4096"

definition NUL :: char where
  "NUL = CHR 0x00"

text \<open>
  \<open>call_arg.encode('ascii')\<close>: \<open>None\<close> has no attribute \<open>encode\<close>; a \<open>str\<close> with a
  code point above 127 cannot be encoded.
\<close>

fun encode_ascii :: "str option \<Rightarrow> exn + bytes" where
  "encode_ascii None = Inl AttributeError"
| "encode_ascii (Some s) =
     (if list_all (\<lambda>c. (of_char c :: nat) < 128) s then Inr s else Inl UnicodeEncodeError)"

text \<open>
  \<open>data.decode()\<close>: strict UTF-8. A byte below 0x80 is its own code point; a lead byte
  0xC2..0xDF, 0xE0..0xEF or 0xF0..0xF4 takes one, two or three continuation bytes, the
  first of them in the narrower range that excludes overlong forms, surrogates and code
  points above 0x10FFFF; anything else raises \<open>UnicodeDecodeError\<close>.
\<close>

definition utf8_cont :: "nat \<Rightarrow> bool" where
  "utf8_cont b = (0x80 \<le> b \<and> b \<le> 0xBF)"

definition utf8_second :: "nat \<Rightarrow> nat \<Rightarrow> bool" where
  "utf8_second b c =
     (if b = 0xE0 then 0xA0 \<le> c \<and> c \<le> 0xBF
      else if b = 0xED then 0x80 \<le> c \<and> c \<le> 0x9F
      else if b = 0xF0 then 0x90 \<le> c \<and> c \<le> 0xBF
      else if b = 0xF4 then 0x80 \<le> c \<and> c \<le> 0x8F
      else utf8_cont c)"

definition utf8_cons :: "nat \<Rightarrow> exn + codepoints \<Rightarrow> exn + codepoints" where
  "utf8_cons cp rest = (case rest of Inl e \<Rightarrow> Inl e | Inr cps \<Rightarrow> Inr (cp # cps))"

fun utf8_decode :: "nat list \<Rightarrow> exn + codepoints" where
  "utf8_decode [] = Inr []"
| "utf8_decode (b # bs) =
     (if b < 0x80 then utf8_cons b (utf8_decode bs)
      else if 0xC2 \<le> b \<and> b \<le> 0xDF then
        (case bs of
           c1 # rest \<Rightarrow>
             if utf8_cont c1
             then utf8_cons ((b - 0xC0) * 64 + (c1 - 0x80)) (utf8_decode rest)
             else Inl UnicodeDecodeError
         | _ \<Rightarrow> Inl UnicodeDecodeError)
      else if 0xE0 \<le> b \<and> b \<le> 0xEF then
        (case bs of
           c1 # c2 # rest \<Rightarrow>
             if utf8_second b c1 \<and> utf8_cont c2
             then utf8_cons (((b - 0xE0) * 64 + (c1 - 0x80)) * 64 + (c2 - 0x80))
                    (utf8_decode rest)
             else Inl UnicodeDecodeError
         | _ \<Rightarrow> Inl UnicodeDecodeError)
      else if 0xF0 \<le> b \<and> b \<le> 0xF4 then
        (case bs of
           c1 # c2 # c3 # rest \<Rightarrow>
             if utf8_second b c1 \<and> utf8_cont c2 \<and> utf8_cont c3
             then utf8_cons ((((b - 0xF0) * 64 + (c1 - 0x80)) * 64 + (c2 - 0x80)) * 64
                              + (c3 - 0x80))
                    (utf8_decode rest)
             else Inl UnicodeDecodeError
         | _ \<Rightarrow> Inl UnicodeDecodeError)
      else Inl UnicodeDecodeError)"

definition bytes_decode :: "bytes \<Rightarrow> exn + codepoints" where
  "bytes_decode data = utf8_decode (map of_char data)"

text \<open>
  \<open>iter(v, w)\<close> with two arguments needs a callable \<open>v\<close>; the module passes the
  \<open>bytes\<close> object that \<open>recv\<close> returned, which is never callable.
\<close>

definition iter_sentinel :: "bytes \<Rightarrow> bytes \<Rightarrow> exn + bytes list" where
  "iter_sentinel v w = Inl TypeError"

text \<open>\<open>s.split(sep)\<close> on \<open>bytes\<close> with a one-byte separator: every occurrence splits.\<close>

fun py_split :: "char \<Rightarrow> bytes \<Rightarrow> bytes list" where
  "py_split sep [] = [[]]"
| "py_split sep (c # cs) =
     (if c = sep then [] # py_split sep cs
      else (case py_split sep cs of
              [] \<Rightarrow> [[c]]
            | w # ws \<Rightarrow> (c # w) # ws))"

text \<open>\<open>s.split(sep, 1)\<close>: at most one split, at the first occurrence.\<close>

definition py_split1 :: "char \<Rightarrow> bytes \<Rightarrow> bytes list" where
  "py_split1 sep s =
     (case dropWhile (\<lambda>c. c \<noteq> sep) s of
        [] \<Rightarrow> [s]
      | _ # rest \<Rightarrow> [takeWhile (\<lambda>c. c \<noteq> sep) s, rest])"

text \<open>
  \<open>data.splitlines()\<close> on \<open>bytes\<close>: lines end at LF, CR or CR LF; the terminators are
  dropped and no empty line is reported after the last terminator.
\<close>

fun splitlines_from :: "bytes \<Rightarrow> bytes \<Rightarrow> bytes list" where
  "splitlines_from cur [] = (if cur = [] then [] else [cur])"
| "splitlines_from cur [c] =
     (if c = CHR 0x0A \<or> c = CHR 0x0D then [cur] else [cur @ [c]])"
| "splitlines_from cur (c # d # cs) =
     (if c = CHR 0x0D \<and> d = CHR 0x0A then cur # splitlines_from [] cs
      else if c = CHR 0x0A \<or> c = CHR 0x0D then cur # splitlines_from [] (d # cs)
      else splitlines_from (cur @ [c]) (d # cs))"

definition splitlines :: "bytes \<Rightarrow> bytes list" where
  "splitlines s = splitlines_from [] s"

section \<open>The Local transport: \<open>QubesLocal._do_qubesd_call\<close>\<close>

text \<open>
  The socket is the environment of the call: whether opening it (\<open>socket.socket\<close>,
  \<open>connect\<close>) raises; for each \<open>sendall\<close> of the call, counted from 0, whether it
  raises; whether \<open>recv\<close> raises; and the chunks the daemon sends before it closes the
  channel. What the call does to the socket is recorded as a list of events: a
  \<open>Sendall\<close> event is a \<open>sendall\<close> that returned, a \<open>SendallFailed\<close> event one that
  raised (how much of its argument reached the channel is then not known).
\<close>

record sock_env =
  connect_error :: "exn option"
  sendall_error :: "nat \<Rightarrow> exn option"
  recv_error :: "exn option"
  recv_chunks :: "bytes list"

datatype event = Connect str | Sendall bytes | SendallFailed bytes | Recv nat

text \<open>
  \<open>client_socket.sendall(data)\<close> as the \<open>i\<close>-th \<open>sendall\<close> of the call: the exception,
  if any, and the trace with the event added.
\<close>

definition sendall :: "sock_env \<Rightarrow> nat \<Rightarrow> bytes \<Rightarrow> event list \<Rightarrow> exn option \<times> event list" where
  "sendall env i data tr =
     (case sendall_error env i of
        Some e \<Rightarrow> (Some e, tr @ [SendallFailed data])
      | None \<Rightarrow> (None, tr @ [Sendall data]))"

text \<open>
  \<open>client_socket.recv(bufsize)\<close>, the first read of the call: at most \<open>bufsize\<close> bytes
  of the first chunk, \<open>b''\<close> when the daemon closed the channel without sending.
\<close>

definition recv :: "sock_env \<Rightarrow> nat \<Rightarrow> exn + bytes" where
  "recv env bufsize =
     (case recv_error env of
        Some e \<Rightarrow> Inl e
      | None \<Rightarrow> Inr (case recv_chunks env of [] \<Rightarrow> [] | c # _ \<Rightarrow> take bufsize c))"

text \<open>
  The loop \<open>for call_arg in ('dom0', method, dest, arg)\<close>: each field is encoded and
  sent, then a NUL byte is sent; an exception of \<open>encode\<close> or of either \<open>sendall\<close>
  leaves the loop at once. The result is the exception, if any, the number of
  \<open>sendall\<close> calls made so far and the trace.
\<close>

fun send_fields ::
  "sock_env \<Rightarrow> str option list \<Rightarrow> nat \<Rightarrow> event list \<Rightarrow> exn option \<times> nat \<times> event list" where
  "send_fields env [] i tr = (None, i, tr)"
| "send_fields env (call_arg # rest) i tr =
     (case encode_ascii call_arg of
        Inl e \<Rightarrow> (Some e, i, tr)
      | Inr b \<Rightarrow>
         (case sendall env i b tr of
            (Some e, tr1) \<Rightarrow> (Some e, Suc i, tr1)
          | (None, tr1) \<Rightarrow>
             (case sendall env (Suc i) [NUL] tr1 of
                (Some e, tr2) \<Rightarrow> (Some e, Suc (Suc i), tr2)
              | (None, tr2) \<Rightarrow> send_fields env rest (Suc (Suc i)) tr2)))"

definition QubesLocal_do_qubesd_call ::
  "sock_env \<Rightarrow> (bytes \<Rightarrow> exn + bytes) \<Rightarrow> str \<Rightarrow> str \<Rightarrow> str option \<Rightarrow> bytes option
     \<Rightarrow> (exn + bytes) \<times> event list" where
  "QubesLocal_do_qubesd_call env parse_qubesd_response dest method arg payload =
     (case connect_error env of
        Some e \<Rightarrow> (Inl e, [Connect QUBESD_SOCK])
      | None \<Rightarrow>
         (case send_fields env [Some ''dom0'', Some method, Some dest, arg] 0
                 [Connect QUBESD_SOCK] of
            (Some e, i, tr) \<Rightarrow> (Inl e, tr)
          | (None, i, tr) \<Rightarrow>
             (case (case payload of None \<Rightarrow> (None, tr) | Some p \<Rightarrow> sendall env i p tr) of
                (Some e, tr1) \<Rightarrow> (Inl e, tr1)
              | (None, tr1) \<Rightarrow>
                 (case recv env BUF_SIZE of
                    Inl e \<Rightarrow> (Inl e, tr1 @ [Recv BUF_SIZE])
                  | Inr data \<Rightarrow>
                     (case iter_sentinel data [] of
                        Inl e \<Rightarrow> (Inl e, tr1 @ [Recv BUF_SIZE])
                      | Inr chunks \<Rightarrow>
                         (parse_qubesd_response (concat chunks), tr1 @ [Recv BUF_SIZE]))))))"

text \<open>The bytes that the \<open>sendall\<close> calls which returned wrote to the channel, in order.\<close>

fun sent :: "event list \<Rightarrow> bytes" where
  "sent [] = []"
| "sent (Sendall b # tr) = b @ sent tr"
| "sent (_ # tr) = sent tr"

text \<open>
  The fields of a sequence of NUL-terminated fields: the pieces of a split at every NUL
  byte, without the piece that follows the last NUL (\<open>data.split(b'\0')[:-1]\<close>).
\<close>

definition nul_fields :: "bytes \<Rightarrow> bytes list" where
  "nul_fields data = butlast (py_split NUL data)"

section \<open>The Remote transport: \<open>QubesRemote._do_qubesd_call\<close>\<close>

text \<open>
  The proxy process is the environment: whether starting it raises, and, as a function
  of its argument vector and of what is written to its input stream, the exit code and
  the two captured streams. \<open>_parse_qubesd_response\<close> is a parameter: it is inherited
  from a class outside this module.
\<close>

record proc_result =
  returncode :: int
  stdout :: bytes
  stderr :: bytes

record proc_env =
  popen_error :: "str list \<Rightarrow> exn option"
  communicate :: "str list \<Rightarrow> bytes option \<Rightarrow> proc_result"

datatype proc_event = Popen "str list" | Communicate "bytes option"

definition service_name_of :: "str \<Rightarrow> str option \<Rightarrow> str" where
  "service_name_of method arg =
     (case arg of None \<Rightarrow> method | Some a \<Rightarrow> method @ (''+'' @ a))"

definition QubesRemote_do_qubesd_call ::
  "proc_env \<Rightarrow> (bytes \<Rightarrow> exn + bytes)
     \<Rightarrow> str \<Rightarrow> str \<Rightarrow> str option \<Rightarrow> bytes option
     \<Rightarrow> (exn + bytes) \<times> proc_event list" where
  "QubesRemote_do_qubesd_call env parse_qubesd_response dest method arg payload =
     (let service_name = service_name_of method arg;
          argv = [''qrexec-client-vm'', dest, service_name]
      in case popen_error env argv of
           Some e \<Rightarrow> (Inl e, [Popen argv])
         | None \<Rightarrow>
            (let p = communicate env argv payload;
                 tr = [Popen argv, Communicate payload]
             in if returncode p \<noteq> 0
                then (case bytes_decode (stderr p) of
                        Inl e \<Rightarrow> (Inl e, tr)
                      | Inr msg \<Rightarrow> (Inl (QubesException ''Service call error: %s'' msg), tr))
                else (parse_qubesd_response (stdout p), tr)))"

section \<open>The entity cache: \<open>VMCollection\<close>\<close>

text \<open>
  A Python dictionary is an association list updated in place (\<open>AList.update\<close>: a key
  already present keeps its position and takes the new value). The dispatcher
  \<open>app._do_qubesd_call\<close> is a parameter: given the calls made so far and the call, it
  raises or returns the response body. The state holds the cache map (\<open>None\<close> until the
  first successful refresh) and the log of dispatcher calls.
\<close>

type_synonym props = "(pyval \<times> pyval) list"
type_synonym vmdict = "(pyval \<times> props) list"
type_synonym call = "str \<times> str \<times> str option \<times> bytes option"
type_synonym dispatcher = "call list \<Rightarrow> call \<Rightarrow> exn + bytes"

record collection =
  vm_list :: "vmdict option"
  calls :: "call list"

datatype wrapper = QubesVM pyval pyval

definition VMCollection_init :: collection where
  "VMCollection_init = \<lparr>vm_list = None, calls = []\<rparr>"

definition list_call :: call where
  "list_call = (''dom0'', ''mgmt.vm.List'', None, None)"

text \<open>
  \<open>dict([vm_prop.split(b'=', 1) for vm_prop in props])\<close>: every element must have
  exactly two items, else \<open>dict\<close> raises \<open>ValueError\<close>.
\<close>

fun dict_of :: "bytes list list \<Rightarrow> props \<Rightarrow> exn + props" where
  "dict_of [] d = Inr d"
| "dict_of ([k, v] # rest) d = dict_of rest (AList.update (Bytes k) (Bytes v) d)"
| "dict_of (_ # rest) d = Inl ValueError"

text \<open>
  One iteration of the loop in \<open>refresh_cache\<close>: unpacking
  \<open>vm_data.split(b' ', 1)\<close> into two names raises \<open>ValueError\<close> when the line has no
  space.
\<close>

definition parse_vm_data :: "bytes \<Rightarrow> exn + (pyval \<times> props)" where
  "parse_vm_data vm_data =
     (case py_split1 CHR '' '' vm_data of
        [vm_name, props] \<Rightarrow>
          (case dict_of (map (py_split1 CHR ''='') (py_split CHR '' '' props)) [] of
             Inl e \<Rightarrow> Inl e
           | Inr d \<Rightarrow> Inr (Bytes vm_name, d))
      | _ \<Rightarrow> Inl ValueError)"

fun build_vm_list :: "bytes list \<Rightarrow> vmdict \<Rightarrow> exn + vmdict" where
  "build_vm_list [] new_vm_list = Inr new_vm_list"
| "build_vm_list (vm_data # rest) new_vm_list =
     (case parse_vm_data vm_data of
        Inl e \<Rightarrow> Inl e
      | Inr (vm_name, d) \<Rightarrow> build_vm_list rest (AList.update vm_name d new_vm_list))"

definition refresh_cache :: "dispatcher \<Rightarrow> bool \<Rightarrow> collection \<Rightarrow> (exn + unit) \<times> collection" where
  "refresh_cache app force s =
     (if \<not> force \<and> vm_list s \<noteq> None then (Inr (), s)
      else
        (let s1 = s\<lparr>calls := calls s @ [list_call]\<rparr>
         in case app (calls s) list_call of
              Inl e \<Rightarrow> (Inl e, s1)
            | Inr vm_list_data \<Rightarrow>
               (case build_vm_list (splitlines vm_list_data) [] of
                  Inl e \<Rightarrow> (Inl e, s1)
                | Inr new_vm_list \<Rightarrow> (Inr (), s1\<lparr>vm_list := Some new_vm_list\<rparr>))))"

text \<open>\<open>__contains__\<close>; \<open>item in None\<close> would raise \<open>TypeError\<close>.\<close>

definition contains :: "dispatcher \<Rightarrow> pyval \<Rightarrow> collection \<Rightarrow> (exn + bool) \<times> collection" where
  "contains app item s =
     (case refresh_cache app False s of
        (Inl e, s1) \<Rightarrow> (Inl e, s1)
      | (Inr _, s1) \<Rightarrow>
         (case vm_list s1 of
            None \<Rightarrow> (Inl TypeError, s1)
          | Some d \<Rightarrow> (Inr (map_of d item \<noteq> None), s1)))"

text \<open>\<open>__getitem__\<close>: the property dictionary is indexed with the \<open>str\<close> key \<open>'class'\<close>.\<close>

definition getitem :: "dispatcher \<Rightarrow> pyval \<Rightarrow> collection \<Rightarrow> (exn + wrapper) \<times> collection" where
  "getitem app item s =
     (case contains app item s of
        (Inl e, s1) \<Rightarrow> (Inl e, s1)
      | (Inr False, s1) \<Rightarrow> (Inl (KeyError item), s1)
      | (Inr True, s1) \<Rightarrow>
         (case vm_list s1 of
            None \<Rightarrow> (Inl TypeError, s1)
          | Some d \<Rightarrow>
             (case map_of d item of
                None \<Rightarrow> (Inl (KeyError item), s1)
              | Some ps \<Rightarrow>
                 (case map_of ps (Str ''class'') of
                    None \<Rightarrow> (Inl (KeyError (Str ''class'')), s1)
                  | Some c \<Rightarrow> (Inr (QubesVM item c), s1)))))"

definition keys :: "dispatcher \<Rightarrow> collection \<Rightarrow> (exn + pyval list) \<times> collection" where
  "keys app s =
     (case refresh_cache app False s of
        (Inl e, s1) \<Rightarrow> (Inl e, s1)
      | (Inr _, s1) \<Rightarrow>
         (case vm_list s1 of
            None \<Rightarrow> (Inl AttributeError, s1)
          | Some d \<Rightarrow> (Inr (map fst d), s1)))"

text \<open>\<open>__iter__\<close>, run to its end: one \<open>self[vm]\<close> per cached name, in order.\<close>

fun iter_from :: "dispatcher \<Rightarrow> pyval list \<Rightarrow> collection \<Rightarrow> (exn + wrapper list) \<times> collection" where
  "iter_from app [] s = (Inr [], s)"
| "iter_from app (vm # rest) s =
     (case getitem app vm s of
        (Inl e, s1) \<Rightarrow> (Inl e, s1)
      | (Inr w, s1) \<Rightarrow>
         (case iter_from app rest s1 of
            (Inl e, s2) \<Rightarrow> (Inl e, s2)
          | (Inr ws, s2) \<Rightarrow> (Inr (w # ws), s2)))"

definition iter :: "dispatcher \<Rightarrow> collection \<Rightarrow> (exn + wrapper list) \<times> collection" where
  "iter app s =
     (case refresh_cache app False s of
        (Inl e, s1) \<Rightarrow> (Inl e, s1)
      | (Inr _, s1) \<Rightarrow>
         (case vm_list s1 of
            None \<Rightarrow> (Inl TypeError, s1)
          | Some d \<Rightarrow> iter_from app (map fst d) s1))"

section \<open>Predicates and inputs used in the statements\<close>

text \<open>
  A cache map is keyed by \<open>bytes\<close> when every entity name is a \<open>bytes\<close> object and so
  is every key of every property dictionary. The invariant of the collection says this
  of the cache map whenever it is populated.
\<close>

fun is_bytes :: "pyval \<Rightarrow> bool" where
  "is_bytes (Bytes _) = True"
| "is_bytes (Str _) = False"

definition bytes_keyed :: "vmdict \<Rightarrow> bool" where
  "bytes_keyed d = list_all (\<lambda>(k, ps). is_bytes k \<and> list_all is_bytes (map fst ps)) d"

definition cache_inv :: "collection \<Rightarrow> bool" where
  "cache_inv s = (case vm_list s of None \<Rightarrow> True | Some d \<Rightarrow> bytes_keyed d)"

text \<open>
  Two response bodies: the listing of two entities, and a listing whose second line has
  no space.
\<close>

definition scenario_body :: bytes where
  "scenario_body =
     ''vm1 class=AppVM state=running'' @ [CHR 0x0A]
     @ ''vm2 class=TemplateVM state=halted'' @ [CHR 0x0A]"

definition broken_body :: bytes where
  "broken_body = ''vm1 class=AppVM'' @ [CHR 0x0A] @ ''vm2'' @ [CHR 0x0A]"

text \<open>
  Three environments: a socket that opens, accepts every \<open>sendall\<close> and is closed by
  the daemon without an answer; a proxy that exits with code 1, an ignored answer on its
  output stream and \<open>permission denied\<close> on its error stream; and a proxy that exits
  with code 1 and the single byte 0xFF, which is not UTF-8, on its error stream.
\<close>

definition open_socket :: sock_env where
  "open_socket =
     \<lparr>connect_error = None, sendall_error = (\<lambda>i. None), recv_error = None, recv_chunks = []\<rparr>"

definition denied_proxy :: proc_env where
  "denied_proxy =
     \<lparr>popen_error = (\<lambda>argv. None),
      communicate = (\<lambda>argv inp.
        \<lparr>returncode = 1, stdout = ''0'' @ [NUL] @ ''ignored'', stderr = ''permission denied''\<rparr>)\<rparr>"

definition undecodable_proxy :: proc_env where
  "undecodable_proxy =
     \<lparr>popen_error = (\<lambda>argv. None),
      communicate = (\<lambda>argv inp.
        \<lparr>returncode = 1, stdout = ''0'' @ [NUL] @ ''ignored'', stderr = [CHR 0xFF]\<rparr>)\<rparr>"

section \<open>Properties of the Local transport\<close>

lemma py_split_until:
  "sep \<notin> set a \<Longrightarrow> py_split sep (a @ sep # rest) = a # py_split sep rest"
  by (induction a) auto

text \<open>
  Claim C9. When opening the channel fails, that is when \<open>connect\<close> raises, the Local
  transport gives the same exception to its caller at once: the only thing it has done
  to the socket is the single \<open>connect\<close> attempt, so no request byte is written and no
  second connection is tried.
\<close>

theorem local_connect_failure:
  "connect_error env = Some e \<Longrightarrow>
   QubesLocal_do_qubesd_call env parse dest method arg payload = (Inl e, [Connect QUBESD_SOCK])"
  by (simp add: QubesLocal_do_qubesd_call_def)

theorem local_connect_failure_witness:
  "connect_error (open_socket\<lparr>connect_error := Some (IOError ''Connection refused'')\<rparr>)
     = Some (IOError ''Connection refused'')
   \<and> QubesLocal_do_qubesd_call
        (open_socket\<lparr>connect_error := Some (IOError ''Connection refused'')\<rparr>)
        Inr ''dom0'' ''mgmt.vm.List'' (Some []) None
     = (Inl (IOError ''Connection refused''), [Connect QUBESD_SOCK])
   \<and> sent [Connect QUBESD_SOCK] = []"
  using local_connect_failure
    [of "open_socket\<lparr>connect_error := Some (IOError ''Connection refused'')\<rparr>"
        "IOError ''Connection refused''" Inr "''dom0''" "''mgmt.vm.List''" "Some []" None]
  by simp

text \<open>
  Claim C4. Take a request whose method, destination and argument are ASCII strings
  without a NUL byte (the argument present, possibly empty), a channel that opens and
  \<open>sendall\<close> calls that all return. Then the transport writes \<open>dom0\<close>, the method, the
  destination and the argument in that order, each followed by one NUL byte, then the
  payload as it is, with nothing in between, and goes on to read. The NUL-terminated
  fields of what was written before the payload are exactly the four fields, in order:
  a split at every NUL byte gives them and nothing but an empty piece after the last
  terminator.
\<close>

theorem local_request_encoding:
  assumes "connect_error env = None"
    and "\<forall>i. sendall_error env i = None"
    and "list_all (\<lambda>c. (of_char c :: nat) < 128) method"
    and "list_all (\<lambda>c. (of_char c :: nat) < 128) dest"
    and "list_all (\<lambda>c. (of_char c :: nat) < 128) a"
    and "NUL \<notin> set method" and "NUL \<notin> set dest" and "NUL \<notin> set a"
  shows "snd (QubesLocal_do_qubesd_call env parse dest method (Some a) payload) =
           [Connect QUBESD_SOCK,
            Sendall ''dom0'', Sendall [NUL], Sendall method, Sendall [NUL],
            Sendall dest, Sendall [NUL], Sendall a, Sendall [NUL]]
           @ (case payload of None \<Rightarrow> [] | Some p \<Rightarrow> [Sendall p]) @ [Recv BUF_SIZE]
       \<and> sent (snd (QubesLocal_do_qubesd_call env parse dest method (Some a) payload)) =
           (''dom0'' @ [NUL] @ method @ [NUL] @ dest @ [NUL] @ a @ [NUL])
           @ (case payload of None \<Rightarrow> [] | Some p \<Rightarrow> p)
       \<and> nul_fields (''dom0'' @ [NUL] @ method @ [NUL] @ dest @ [NUL] @ a @ [NUL]) =
           [''dom0'', method, dest, a]
       \<and> py_split NUL (''dom0'' @ [NUL] @ method @ [NUL] @ dest @ [NUL] @ a @ [NUL]) =
           [''dom0'', method, dest, a] @ [[]]"
proof -
  have tr: "snd (QubesLocal_do_qubesd_call env parse dest method (Some a) payload) =
           [Connect QUBESD_SOCK,
            Sendall ''dom0'', Sendall [NUL], Sendall method, Sendall [NUL],
            Sendall dest, Sendall [NUL], Sendall a, Sendall [NUL]]
           @ (case payload of None \<Rightarrow> [] | Some p \<Rightarrow> [Sendall p]) @ [Recv BUF_SIZE]"
    using assms(1-5)
    by (simp add: QubesLocal_do_qubesd_call_def sendall_def iter_sentinel_def
             split: option.splits sum.splits)
  have snt: "sent (snd (QubesLocal_do_qubesd_call env parse dest method (Some a) payload)) =
           (''dom0'' @ [NUL] @ method @ [NUL] @ dest @ [NUL] @ a @ [NUL])
           @ (case payload of None \<Rightarrow> [] | Some p \<Rightarrow> p)"
    unfolding tr by (simp split: option.splits)
  have d: "NUL \<notin> set ''dom0''" by (simp add: NUL_def)
  have "py_split NUL (''dom0'' @ NUL # method @ NUL # dest @ NUL # a @ NUL # []) =
          [''dom0'', method, dest, a, []]"
    by (simp only: py_split_until [OF d] py_split_until [OF assms(6)]
          py_split_until [OF assms(7)] py_split_until [OF assms(8)] py_split.simps)
  then have sp: "py_split NUL (''dom0'' @ [NUL] @ method @ [NUL] @ dest @ [NUL] @ a @ [NUL]) =
           [''dom0'', method, dest, a] @ [[]]"
    by simp
  then have nf: "nul_fields (''dom0'' @ [NUL] @ method @ [NUL] @ dest @ [NUL] @ a @ [NUL]) =
           [''dom0'', method, dest, a]"
    unfolding nul_fields_def by (simp only: butlast_snoc)
  from tr snt nf sp show ?thesis by blast
qed

theorem local_request_encoding_witness:
  "connect_error open_socket = None
   \<and> (\<forall>i. sendall_error open_socket i = None)
   \<and> list_all (\<lambda>c. (of_char c :: nat) < 128) ''mgmt.vm.List''
   \<and> list_all (\<lambda>c. (of_char c :: nat) < 128) ''dom0''
   \<and> list_all (\<lambda>c. (of_char c :: nat) < 128) []
   \<and> NUL \<notin> set ''mgmt.vm.List'' \<and> NUL \<notin> set ''dom0'' \<and> NUL \<notin> set []
   \<and> sent (snd (QubesLocal_do_qubesd_call open_socket
               Inr ''dom0'' ''mgmt.vm.List'' (Some []) (Some ''xyz'')))
       = ''dom0'' @ [NUL] @ ''mgmt.vm.List'' @ [NUL] @ ''dom0'' @ [NUL] @ [NUL] @ ''xyz''
   \<and> nul_fields (''dom0'' @ [NUL] @ ''mgmt.vm.List'' @ [NUL] @ ''dom0'' @ [NUL] @ [] @ [NUL])
       = [''dom0'', ''mgmt.vm.List'', ''dom0'', []]"
proof -
  have h1: "connect_error open_socket = None" by (simp add: open_socket_def)
  have h2: "\<forall>i. sendall_error open_socket i = None" by (simp add: open_socket_def)
  have h3: "list_all (\<lambda>c. (of_char c :: nat) < 128) ''mgmt.vm.List''" by simp
  have h4: "list_all (\<lambda>c. (of_char c :: nat) < 128) ''dom0''" by simp
  have h5: "list_all (\<lambda>c. (of_char c :: nat) < 128) []" by simp
  have h6: "NUL \<notin> set ''mgmt.vm.List''" by (simp add: NUL_def)
  have h7: "NUL \<notin> set ''dom0''" by (simp add: NUL_def)
  have h8: "NUL \<notin> set []" by simp
  from local_request_encoding [OF h1 h2 h3 h4 h5 h6 h7 h8, of Inr "Some ''xyz''"]
  have "sent (snd (QubesLocal_do_qubesd_call open_socket
               Inr ''dom0'' ''mgmt.vm.List'' (Some []) (Some ''xyz'')))
       = ''dom0'' @ [NUL] @ ''mgmt.vm.List'' @ [NUL] @ ''dom0'' @ [NUL] @ [NUL] @ ''xyz''"
   and "nul_fields (''dom0'' @ [NUL] @ ''mgmt.vm.List'' @ [NUL] @ ''dom0'' @ [NUL] @ [] @ [NUL])
       = [''dom0'', ''mgmt.vm.List'', ''dom0'', []]"
    by simp_all
  with h1 h2 h3 h4 h5 h6 h7 h8 show ?thesis by blast
qed

text \<open>
  Claim C1. The claim says that a call without an argument still writes the argument
  field and its NUL byte and goes on to read a response. The code does not: for the
  entity-list call of the cache (no argument, no payload) on a channel that opens and
  accepts every \<open>sendall\<close>, it writes the first three fields, then \<open>None.encode\<close>
  raises \<open>AttributeError\<close>; the fourth field and its terminator are never written, a
  payload is never sent and nothing is read.
\<close>

theorem local_call_without_arg:
  "QubesLocal_do_qubesd_call (open_socket\<lparr>recv_chunks := chunks\<rparr>) parse
       ''dom0'' ''mgmt.vm.List'' None None
     = (Inl AttributeError,
        [Connect QUBESD_SOCK,
         Sendall ''dom0'', Sendall [NUL], Sendall ''mgmt.vm.List'', Sendall [NUL],
         Sendall ''dom0'', Sendall [NUL]])
   \<and> QubesLocal_do_qubesd_call (open_socket\<lparr>recv_chunks := chunks\<rparr>) parse
       ''dom0'' ''mgmt.vm.List'' None (Some ''payload'')
     = (Inl AttributeError,
        [Connect QUBESD_SOCK,
         Sendall ''dom0'', Sendall [NUL], Sendall ''mgmt.vm.List'', Sendall [NUL],
         Sendall ''dom0'', Sendall [NUL]])"
  by (simp add: QubesLocal_do_qubesd_call_def sendall_def open_socket_def)

lemma local_call_raises:
  "\<exists>e. fst (QubesLocal_do_qubesd_call env parse dest method arg payload) = Inl e"
  by (auto simp: QubesLocal_do_qubesd_call_def iter_sentinel_def
           split: option.splits prod.splits sum.splits)

text \<open>
  Claim C2. The claim says that the transport reads until the daemon closes the channel
  and gives everything it received to the response decoder. The code does not: no call
  of the Local transport ever returns a decoded result. With a well-formed request and
  a daemon that answers in two chunks, the code reads once, then \<open>iter\<close> raises
  \<open>TypeError\<close> on the \<open>bytes\<close> object it is given; the second chunk is never read
  and the decoder is never called.
\<close>

theorem local_call_never_decodes:
  "(\<exists>e. fst (QubesLocal_do_qubesd_call env parse dest method arg payload) = Inl e)
   \<and> QubesLocal_do_qubesd_call
        (open_socket\<lparr>recv_chunks :=
           [''0'' @ [NUL] @ ''vm1 class=AppVM'', '' state=running'' @ [CHR 0x0A]]\<rparr>)
        (\<lambda>raw. Inr (drop 2 raw)) ''dom0'' ''mgmt.vm.List'' (Some []) None
     = (Inl TypeError,
        [Connect QUBESD_SOCK,
         Sendall ''dom0'', Sendall [NUL], Sendall ''mgmt.vm.List'', Sendall [NUL],
         Sendall ''dom0'', Sendall [NUL], Sendall [], Sendall [NUL], Recv BUF_SIZE])"
proof
  show "\<exists>e. fst (QubesLocal_do_qubesd_call env parse dest method arg payload) = Inl e"
    by (rule local_call_raises)
next
  show "QubesLocal_do_qubesd_call
        (open_socket\<lparr>recv_chunks :=
           [''0'' @ [NUL] @ ''vm1 class=AppVM'', '' state=running'' @ [CHR 0x0A]]\<rparr>)
        (\<lambda>raw. Inr (drop 2 raw)) ''dom0'' ''mgmt.vm.List'' (Some []) None
     = (Inl TypeError,
        [Connect QUBESD_SOCK,
         Sendall ''dom0'', Sendall [NUL], Sendall ''mgmt.vm.List'', Sendall [NUL],
         Sendall ''dom0'', Sendall [NUL], Sendall [], Sendall [NUL], Recv BUF_SIZE])"
    by (simp add: QubesLocal_do_qubesd_call_def sendall_def recv_def iter_sentinel_def
             open_socket_def)
qed

section \<open>Properties of the Remote transport\<close>

lemma utf8_cons_error:
  "utf8_cons cp r = Inl e \<Longrightarrow> r = Inl e"
  by (cases r) (simp_all add: utf8_cons_def)

lemma utf8_decode_error:
  "utf8_decode bs = Inl e \<Longrightarrow> e = UnicodeDecodeError"
proof (induction bs arbitrary: e rule: utf8_decode.induct)
  case 1
  then show ?case by simp
next
  case (2 b bs)
  show ?case
  proof (cases "b < 0x80")
    case True
    with "2.prems" have "utf8_cons b (utf8_decode bs) = Inl e" by simp
    then have "utf8_decode bs = Inl e" by (rule utf8_cons_error)
    with "2.IH"(1) True show ?thesis by blast
  next
    case n1: False
    show ?thesis
    proof (cases "0xC2 \<le> b \<and> b \<le> 0xDF")
      case True
      show ?thesis
      proof (cases bs)
        case Nil
        with "2.prems" n1 True show ?thesis by simp
      next
        case (Cons c1 rest)
        show ?thesis
        proof (cases "utf8_cont c1")
          case c: True
          with "2.prems" n1 True Cons
          have "utf8_cons ((b - 0xC0) * 64 + (c1 - 0x80)) (utf8_decode rest) = Inl e" by simp
          then have "utf8_decode rest = Inl e" by (rule utf8_cons_error)
          with "2.IH"(2) n1 True Cons c show ?thesis by blast
        next
          case False
          with "2.prems" n1 True Cons show ?thesis by simp
        qed
      qed
    next
      case n2: False
      show ?thesis
      proof (cases "0xE0 \<le> b \<and> b \<le> 0xEF")
        case True
        show ?thesis
        proof (cases "\<exists>c1 c2 rest. bs = c1 # c2 # rest \<and> utf8_second b c1 \<and> utf8_cont c2")
          case ex: True
          then obtain c1 c2 rest where bs: "bs = c1 # c2 # rest"
            and ok: "utf8_second b c1 \<and> utf8_cont c2" by blast
          with "2.prems" n1 n2 True
          have "utf8_cons (((b - 0xE0) * 64 + (c1 - 0x80)) * 64 + (c2 - 0x80))
                  (utf8_decode rest) = Inl e" by simp
          then have "utf8_decode rest = Inl e" by (rule utf8_cons_error)
          with "2.IH"(3) n1 n2 True bs ok show ?thesis by blast
        next
          case False
          with "2.prems" n1 n2 True show ?thesis
            by (simp split: list.splits if_splits)
        qed
      next
        case n3: False
        show ?thesis
        proof (cases "0xF0 \<le> b \<and> b \<le> 0xF4")
          case True
          show ?thesis
          proof (cases "\<exists>c1 c2 c3 rest. bs = c1 # c2 # c3 # rest
                          \<and> utf8_second b c1 \<and> utf8_cont c2 \<and> utf8_cont c3")
            case ex: True
            then obtain c1 c2 c3 rest where bs: "bs = c1 # c2 # c3 # rest"
              and ok: "utf8_second b c1 \<and> utf8_cont c2 \<and> utf8_cont c3" by blast
            with "2.prems" n1 n2 n3 True
            have "utf8_cons ((((b - 0xF0) * 64 + (c1 - 0x80)) * 64 + (c2 - 0x80)) * 64
                              + (c3 - 0x80)) (utf8_decode rest) = Inl e" by simp
            then have "utf8_decode rest = Inl e" by (rule utf8_cons_error)
            with "2.IH"(4) n1 n2 n3 True bs ok show ?thesis by blast
          next
            case False
            with "2.prems" n1 n2 n3 True show ?thesis
              by (simp split: list.splits if_splits)
          qed
        next
          case False
          with "2.prems" n1 n2 n3 show ?thesis by simp
        qed
      qed
    qed
  qed
qed

lemma utf8_decode_ascii:
  "list_all (\<lambda>b. b < 128) bs \<Longrightarrow> utf8_decode bs = Inr bs"
  by (induction bs) (simp_all add: utf8_cons_def)

lemma bytes_decode_error:
  "bytes_decode data = Inl e \<Longrightarrow> e = UnicodeDecodeError"
  unfolding bytes_decode_def by (rule utf8_decode_error)

text \<open>
  Claim C7. The service name is the method when there is no argument, and the method,
  a plus sign and the argument when there is one. The proxy is started with the
  argument vector \<open>qrexec-client-vm\<close>, destination, service name, and, once started,
  is given the payload on its input stream (nothing when the payload is absent). These
  are the only things the call does to the process.
\<close>

theorem remote_service_name:
  "service_name_of method None = method
   \<and> service_name_of method (Some a) = method @ ''+'' @ a
   \<and> snd (QubesRemote_do_qubesd_call env parse dest method arg payload) =
       Popen [''qrexec-client-vm'', dest, service_name_of method arg]
       # (if popen_error env [''qrexec-client-vm'', dest, service_name_of method arg] = None
          then [Communicate payload] else [])"
  by (auto simp: service_name_of_def QubesRemote_do_qubesd_call_def Let_def
           split: option.splits sum.splits)

text \<open>
  Claim C6, as stated, fails: a proxy that exits with code 1 and leaves on its error
  stream the byte 0xFF, which is not UTF-8, makes the call raise the
  \<open>UnicodeDecodeError\<close> of \<open>stderr.decode()\<close>, an error that carries no text of the
  error stream.
\<close>

theorem remote_undecodable_stderr:
  "popen_error undecodable_proxy
       [''qrexec-client-vm'', ''dom0'', service_name_of ''mgmt.vm.List'' None] = None
   \<and> returncode (communicate undecodable_proxy
       [''qrexec-client-vm'', ''dom0'', service_name_of ''mgmt.vm.List'' None] None) = 1
   \<and> stderr (communicate undecodable_proxy
       [''qrexec-client-vm'', ''dom0'', service_name_of ''mgmt.vm.List'' None] None)
       = [CHR 0xFF]
   \<and> bytes_decode [CHR 0xFF] = Inl UnicodeDecodeError
   \<and> fst (QubesRemote_do_qubesd_call undecodable_proxy Inr
            ''dom0'' ''mgmt.vm.List'' None None)
       = Inl UnicodeDecodeError"
  by (simp add: QubesRemote_do_qubesd_call_def undecodable_proxy_def bytes_decode_def
        service_name_of_def)

text \<open>
  Claim C6, amended. Once the proxy process has been started: when it exits with a
  non-zero code, the call raises, and the result is the same whatever the output stream
  holds and whatever the response decoder is; when the error stream is well-formed
  UTF-8 the exception is \<open>QubesException\<close> carrying the decoded text of the error
  stream, otherwise it is the \<open>UnicodeDecodeError\<close> of \<open>stderr.decode()\<close>. When the
  exit code is zero the result is the response decoder applied to the output stream.
\<close>

theorem remote_nonzero_exit:
  assumes "popen_error env [''qrexec-client-vm'', dest, service_name_of method arg] = None"
  shows "(returncode (communicate env [''qrexec-client-vm'', dest, service_name_of method arg] payload) \<noteq> 0 \<longrightarrow>
           fst (QubesRemote_do_qubesd_call env parse dest method arg payload) =
             (case bytes_decode (stderr (communicate env [''qrexec-client-vm'', dest, service_name_of method arg] payload)) of
                Inl e \<Rightarrow> Inl UnicodeDecodeError
              | Inr msg \<Rightarrow> Inl (QubesException ''Service call error: %s'' msg))
         \<and> fst (QubesRemote_do_qubesd_call
                  (env\<lparr>communicate := \<lambda>argv inp. (communicate env argv inp)\<lparr>stdout := out'\<rparr>\<rparr>)
                  parse' dest method arg payload) =
             fst (QubesRemote_do_qubesd_call env parse dest method arg payload))
       \<and> (returncode (communicate env [''qrexec-client-vm'', dest, service_name_of method arg] payload) = 0 \<longrightarrow>
           fst (QubesRemote_do_qubesd_call env parse dest method arg payload) =
             parse (stdout (communicate env [''qrexec-client-vm'', dest, service_name_of method arg] payload)))"
  using assms
  by (auto simp: QubesRemote_do_qubesd_call_def Let_def split: sum.splits
           dest: bytes_decode_error)

lemma denied_decode:
  "bytes_decode ''permission denied'' = Inr (map of_char ''permission denied'')"
  unfolding bytes_decode_def by (rule utf8_decode_ascii) simp

theorem remote_nonzero_exit_witness:
  "popen_error denied_proxy
       [''qrexec-client-vm'', ''dom0'', service_name_of ''mgmt.vm.List'' None] = None
   \<and> returncode (communicate denied_proxy
       [''qrexec-client-vm'', ''dom0'', service_name_of ''mgmt.vm.List'' None] None) \<noteq> 0
   \<and> fst (QubesRemote_do_qubesd_call denied_proxy Inr ''dom0'' ''mgmt.vm.List'' None None)
       = Inl (QubesException ''Service call error: %s'' (map of_char ''permission denied''))
   \<and> returncode (communicate (denied_proxy\<lparr>communicate := \<lambda>argv inp.
         \<lparr>returncode = 0, stdout = ''0'' @ [NUL] @ ''vm1 class=AppVM'', stderr = []\<rparr>\<rparr>)
       [''qrexec-client-vm'', ''dom0'', service_name_of ''mgmt.vm.List'' None] None) = 0
   \<and> fst (QubesRemote_do_qubesd_call (denied_proxy\<lparr>communicate := \<lambda>argv inp.
         \<lparr>returncode = 0, stdout = ''0'' @ [NUL] @ ''vm1 class=AppVM'', stderr = []\<rparr>\<rparr>)
       (\<lambda>raw. Inr (drop 2 raw)) ''dom0'' ''mgmt.vm.List'' None None)
       = Inr ''vm1 class=AppVM''"
proof -
  have h1: "popen_error denied_proxy
       [''qrexec-client-vm'', ''dom0'', service_name_of ''mgmt.vm.List'' None] = None"
    by (simp add: denied_proxy_def)
  have h2: "popen_error (denied_proxy\<lparr>communicate := \<lambda>argv inp.
         \<lparr>returncode = 0, stdout = ''0'' @ [NUL] @ ''vm1 class=AppVM'', stderr = []\<rparr>\<rparr>)
       [''qrexec-client-vm'', ''dom0'', service_name_of ''mgmt.vm.List'' None] = None"
    by (simp add: denied_proxy_def)
  from remote_nonzero_exit [OF h1, of None Inr] remote_nonzero_exit [OF h2, of None "\<lambda>raw. Inr (drop 2 raw)"]
  show ?thesis
    by (simp add: denied_proxy_def denied_decode)
qed

section \<open>Properties of the entity cache\<close>

lemma refresh_cache_populated:
  "vm_list s \<noteq> None \<Longrightarrow> refresh_cache app False s = (Inr (), s)"
  by (simp add: refresh_cache_def)

lemma refresh_cache_ok_populated:
  "fst (refresh_cache app force s) = Inr () \<Longrightarrow> vm_list (snd (refresh_cache app force s)) \<noteq> None"
  by (auto simp: refresh_cache_def Let_def split: sum.splits if_splits)

lemma refresh_cache_error_keeps:
  "fst (refresh_cache app force s) = Inl e \<Longrightarrow>
   vm_list (snd (refresh_cache app force s)) = vm_list s"
  by (auto simp: refresh_cache_def Let_def split: sum.splits if_splits)

lemma refresh_cache_forced_calls:
  "force \<or> vm_list s = None \<Longrightarrow>
   calls (snd (refresh_cache app force s)) = calls s @ [list_call]"
  by (auto simp: refresh_cache_def Let_def split: sum.splits)

lemma list_all_keys_update:
  "list_all P (map fst al) \<Longrightarrow> P k \<Longrightarrow> list_all P (map fst (AList.update k v al))"
  by (induction al) auto

lemma dict_of_keys:
  "dict_of xs d = Inr d' \<Longrightarrow> list_all is_bytes (map fst d) \<Longrightarrow> list_all is_bytes (map fst d')"
  by (induction xs d rule: dict_of.induct) (auto simp: list_all_keys_update)

lemma parse_vm_data_keys:
  "parse_vm_data l = Inr (n, ps) \<Longrightarrow> is_bytes n \<and> list_all is_bytes (map fst ps)"
  by (auto simp: parse_vm_data_def split: list.splits sum.splits dest: dict_of_keys)

lemma parse_vm_data_name:
  "parse_vm_data l = Inr (n, ps) \<Longrightarrow> n = Bytes (takeWhile (\<lambda>c. c \<noteq> CHR '' '') l)"
  by (auto simp: parse_vm_data_def py_split1_def split: list.splits sum.splits)

lemma parse_vm_data_no_space:
  "CHR '' '' \<notin> set l \<Longrightarrow> parse_vm_data l = Inl ValueError"
proof -
  assume "CHR '' '' \<notin> set l"
  then have dw: "dropWhile (\<lambda>c. c \<noteq> CHR '' '') l = []" by auto
  show ?thesis by (simp add: parse_vm_data_def py_split1_def dw)
qed

lemma dict_of_error: "dict_of xs d = Inl e \<Longrightarrow> e = ValueError"
  by (induction xs d rule: dict_of.induct) auto

lemma parse_vm_data_error: "parse_vm_data l = Inl e \<Longrightarrow> e = ValueError"
  by (auto simp: parse_vm_data_def split: list.splits sum.splits dest: dict_of_error)

lemma bytes_keyed_update:
  "bytes_keyed d \<Longrightarrow> is_bytes n \<Longrightarrow> list_all is_bytes (map fst ps) \<Longrightarrow>
   bytes_keyed (AList.update n ps d)"
  unfolding bytes_keyed_def by (induction d) auto

lemma build_vm_list_keyed:
  "build_vm_list ls d = Inr d' \<Longrightarrow> bytes_keyed d \<Longrightarrow> bytes_keyed d'"
proof (induction ls arbitrary: d)
  case Nil
  then show ?case by simp
next
  case (Cons l ls)
  from Cons.prems(1) obtain n ps where p: "parse_vm_data l = Inr (n, ps)"
    and r: "build_vm_list ls (AList.update n ps d) = Inr d'"
    by (auto split: sum.splits)
  from parse_vm_data_keys [OF p] Cons.prems(2) have "bytes_keyed (AList.update n ps d)"
    by (simp add: bytes_keyed_update)
  with Cons.IH r show ?case by blast
qed

lemma build_vm_list_error: "build_vm_list ls d = Inl e \<Longrightarrow> e = ValueError"
  by (induction ls arbitrary: d) (auto split: sum.splits dest: parse_vm_data_error)

lemma build_vm_list_bad_line:
  "l \<in> set ls \<Longrightarrow> parse_vm_data l = Inl ValueError \<Longrightarrow> build_vm_list ls d = Inl ValueError"
proof (induction ls arbitrary: d)
  case Nil
  then show ?case by simp
next
  case (Cons x xs)
  show ?case
  proof (cases "parse_vm_data x")
    case (Inl e)
    then show ?thesis using parse_vm_data_error [OF Inl] by simp
  next
    case (Inr np)
    then have "x \<noteq> l" using Cons.prems(2) by auto
    with Cons.prems have "l \<in> set xs" by simp
    from Cons.IH [OF this Cons.prems(2)] Inr show ?thesis by (simp split: prod.splits)
  qed
qed

lemma build_vm_list_names:
  "build_vm_list ls d = Inr d' \<Longrightarrow>
   fst ` set d' = fst ` set d \<union> (\<lambda>l. Bytes (takeWhile (\<lambda>c. c \<noteq> CHR '' '') l)) ` set ls"
proof (induction ls arbitrary: d)
  case Nil
  then show ?case by simp
next
  case (Cons l ls)
  from Cons.prems(1) obtain n ps where p: "parse_vm_data l = Inr (n, ps)"
    and r: "build_vm_list ls (AList.update n ps d) = Inr d'"
    by (auto split: sum.splits)
  from Cons.IH [OF r] parse_vm_data_name [OF p] show ?case
    by (simp add: AList.dom_update)
qed

lemma build_vm_list_distinct:
  "build_vm_list ls d = Inr d' \<Longrightarrow> distinct (map fst d) \<Longrightarrow> distinct (map fst d')"
proof (induction ls arbitrary: d)
  case Nil
  then show ?case by simp
next
  case (Cons l ls)
  from Cons.prems(1) obtain n ps where p: "parse_vm_data l = Inr (n, ps)"
    and r: "build_vm_list ls (AList.update n ps d) = Inr d'"
    by (auto split: sum.splits)
  from Cons.IH [OF r] Cons.prems(2) show ?case by (simp add: AList.distinct_update)
qed

lemma refresh_cache_inv:
  "cache_inv s \<Longrightarrow> cache_inv (snd (refresh_cache app force s))"
  by (auto simp: refresh_cache_def cache_inv_def Let_def bytes_keyed_def
           split: sum.splits option.splits dest!: build_vm_list_keyed)

lemma contains_state: "snd (contains app item s) = snd (refresh_cache app False s)"
  by (auto simp: contains_def split: prod.splits sum.splits option.splits)

lemma getitem_state: "snd (getitem app item s) = snd (refresh_cache app False s)"
  using contains_state [of app item s]
  by (auto simp: getitem_def split: prod.splits sum.splits option.splits bool.splits)

lemma keys_state: "snd (keys app s) = snd (refresh_cache app False s)"
  by (auto simp: keys_def split: prod.splits sum.splits option.splits)

lemma map_of_bytes_keyed_Str:
  "list_all is_bytes (map fst al) \<Longrightarrow> map_of al (Str n) = None"
  by (induction al) auto

lemma bytes_keyed_lookup:
  "bytes_keyed d \<Longrightarrow> map_of d item = Some ps \<Longrightarrow> is_bytes item \<and> list_all is_bytes (map fst ps)"
  unfolding bytes_keyed_def by (induction d) (auto split: if_splits)

lemma getitem_inv_state:
  "cache_inv s \<Longrightarrow> cache_inv (snd (getitem app item s))"
  by (simp add: getitem_state refresh_cache_inv)

lemma iter_from_inv:
  "cache_inv s \<Longrightarrow> cache_inv (snd (iter_from app ks s))"
proof (induction ks arbitrary: s)
  case Nil
  then show ?case by simp
next
  case (Cons k ks)
  have g: "cache_inv (snd (getitem app k s))" using Cons.prems by (rule getitem_inv_state)
  show ?case
  proof (cases "getitem app k s")
    case (Pair r s1)
    with g have i: "cache_inv s1" by simp
    show ?thesis
    proof (cases r)
      case (Inl e)
      with Pair i show ?thesis by simp
    next
      case (Inr w)
      from Cons.IH [OF i] Pair Inr show ?thesis
        by (auto split: prod.splits sum.splits)
    qed
  qed
qed

lemma iter_inv: "cache_inv s \<Longrightarrow> cache_inv (snd (iter app s))"
proof -
  assume a: "cache_inv s"
  then have r: "cache_inv (snd (refresh_cache app False s))" by (rule refresh_cache_inv)
  show ?thesis
  proof (cases "refresh_cache app False s")
    case (Pair res s1)
    with r have i: "cache_inv s1" by simp
    from iter_from_inv [OF i] Pair i show ?thesis
      by (auto simp: iter_def split: sum.splits option.splits)
  qed
qed

lemma refresh_cache_ok_cases:
  assumes "fst (refresh_cache app True s) = Inr ()"
  obtains body new where "app (calls s) list_call = Inr body"
    and "build_vm_list (splitlines body) [] = Inr new"
    and "snd (refresh_cache app True s) = \<lparr>vm_list = Some new, calls = calls s @ [list_call]\<rparr>"
  using assms by (auto simp: refresh_cache_def Let_def split: sum.splits)

lemma keys_populated:
  "vm_list s = Some d \<Longrightarrow> keys app s = (Inr (map fst d), s)"
  by (simp add: keys_def refresh_cache_def)

text \<open>
  Claim C5. On a populated cache a refresh without force makes no dispatcher call and
  changes nothing. A forced refresh makes exactly one dispatcher call, the entity-list
  call. When it succeeds, \<open>keys\<close> afterwards makes no further call and returns the
  names parsed from the response of that call, each once: the part before the first
  space of each line of the body.
\<close>

theorem refresh_cache_force_keys:
  "(vm_list s \<noteq> None \<longrightarrow> refresh_cache app False s = (Inr (), s))
   \<and> calls (snd (refresh_cache app True s)) = calls s @ [list_call]
   \<and> (fst (refresh_cache app True s) = Inr () \<longrightarrow>
        (\<exists>body ks. app (calls s) list_call = Inr body
           \<and> keys app (snd (refresh_cache app True s)) = (Inr ks, snd (refresh_cache app True s))
           \<and> distinct ks
           \<and> set ks = (\<lambda>l. Bytes (takeWhile (\<lambda>c. c \<noteq> CHR '' '') l)) ` set (splitlines body)))"
proof (intro conjI impI)
  assume "vm_list s \<noteq> None"
  then show "refresh_cache app False s = (Inr (), s)" by (rule refresh_cache_populated)
next
  show "calls (snd (refresh_cache app True s)) = calls s @ [list_call]"
    by (simp add: refresh_cache_forced_calls)
next
  assume ok: "fst (refresh_cache app True s) = Inr ()"
  then obtain body new where b: "app (calls s) list_call = Inr body"
    and n: "build_vm_list (splitlines body) [] = Inr new"
    and s': "snd (refresh_cache app True s) = \<lparr>vm_list = Some new, calls = calls s @ [list_call]\<rparr>"
    by (rule refresh_cache_ok_cases)
  have k: "keys app (snd (refresh_cache app True s)) =
             (Inr (map fst new), snd (refresh_cache app True s))"
    by (rule keys_populated) (simp add: s')
  have d: "distinct (map fst new)"
    using build_vm_list_distinct [OF n] by simp
  have e: "set (map fst new) =
             (\<lambda>l. Bytes (takeWhile (\<lambda>c. c \<noteq> CHR '' '') l)) ` set (splitlines body)"
    using build_vm_list_names [OF n] by simp
  from b k d e
  show "\<exists>body ks. app (calls s) list_call = Inr body
           \<and> keys app (snd (refresh_cache app True s)) = (Inr ks, snd (refresh_cache app True s))
           \<and> distinct ks
           \<and> set ks = (\<lambda>l. Bytes (takeWhile (\<lambda>c. c \<noteq> CHR '' '') l)) ` set (splitlines body)"
    by blast
qed

lemma scenario_refresh:
  "refresh_cache (\<lambda>_ _. Inr scenario_body) True \<lparr>vm_list = Some [], calls = []\<rparr> =
     (Inr (), \<lparr>vm_list = Some
        [(Bytes ''vm1'', [(Bytes ''class'', Bytes ''AppVM''), (Bytes ''state'', Bytes ''running'')]),
         (Bytes ''vm2'', [(Bytes ''class'', Bytes ''TemplateVM''), (Bytes ''state'', Bytes ''halted'')])],
        calls = [list_call]\<rparr>)"
  by code_simp

theorem refresh_cache_force_keys_witness:
  "vm_list \<lparr>vm_list = Some [], calls = []\<rparr> \<noteq> None
   \<and> refresh_cache (\<lambda>_ _. Inr scenario_body) False \<lparr>vm_list = Some [], calls = []\<rparr>
       = (Inr (), \<lparr>vm_list = Some [], calls = []\<rparr>)
   \<and> fst (refresh_cache (\<lambda>_ _. Inr scenario_body) True \<lparr>vm_list = Some [], calls = []\<rparr>) = Inr ()
   \<and> calls (snd (refresh_cache (\<lambda>_ _. Inr scenario_body) True \<lparr>vm_list = Some [], calls = []\<rparr>))
       = [list_call]
   \<and> fst (keys (\<lambda>_ _. Inr scenario_body)
        (snd (refresh_cache (\<lambda>_ _. Inr scenario_body) True \<lparr>vm_list = Some [], calls = []\<rparr>)))
       = Inr [Bytes ''vm1'', Bytes ''vm2'']"
  using refresh_cache_force_keys
    [of "\<lparr>vm_list = Some [], calls = []\<rparr>" "\<lambda>_ _. Inr scenario_body"]
  by (simp add: scenario_refresh keys_populated)

lemma refresh_cache_changed:
  assumes "vm_list (snd (refresh_cache app force s)) \<noteq> vm_list s"
  shows "fst (refresh_cache app force s) = Inr ()
       \<and> (\<exists>body new. app (calls s) list_call = Inr body
            \<and> build_vm_list (splitlines body) [] = Inr new
            \<and> vm_list (snd (refresh_cache app force s)) = Some new)"
  using assms by (auto simp: refresh_cache_def Let_def split: sum.splits if_splits)

lemma refresh_cache_bad_line:
  assumes "force \<or> vm_list s = None"
    and "app (calls s) list_call = Inr body"
    and "l \<in> set (splitlines body)"
    and "CHR '' '' \<notin> set l"
  shows "refresh_cache app force s = (Inl ValueError, s\<lparr>calls := calls s @ [list_call]\<rparr>)"
proof -
  have "build_vm_list (splitlines body) [] = Inl ValueError"
    using assms(3) parse_vm_data_no_space [OF assms(4)] by (rule build_vm_list_bad_line)
  with assms(1,2) show ?thesis
    by (auto simp: refresh_cache_def Let_def)
qed

text \<open>
  Claim C8. A refresh that raises leaves the cache map as it was, unpopulated or
  populated. The map changes only when the refresh succeeds, and then to the map built
  from the whole response. In particular a response with a line that has no space
  makes the refresh raise \<open>ValueError\<close> after the one dispatcher call, with the cache
  map untouched.
\<close>

theorem refresh_cache_atomic:
  "(fst (refresh_cache app force s) = Inl e \<longrightarrow>
      vm_list (snd (refresh_cache app force s)) = vm_list s)
   \<and> (vm_list (snd (refresh_cache app force s)) \<noteq> vm_list s \<longrightarrow>
        fst (refresh_cache app force s) = Inr ()
        \<and> (\<exists>body new. app (calls s) list_call = Inr body
             \<and> build_vm_list (splitlines body) [] = Inr new
             \<and> vm_list (snd (refresh_cache app force s)) = Some new))
   \<and> ((force \<or> vm_list s = None) \<and> app (calls s) list_call = Inr body
        \<and> l \<in> set (splitlines body) \<and> CHR '' '' \<notin> set l \<longrightarrow>
        refresh_cache app force s = (Inl ValueError, s\<lparr>calls := calls s @ [list_call]\<rparr>))"
  using refresh_cache_error_keeps [of app force s e] refresh_cache_changed [of app force s]
    refresh_cache_bad_line [of force s app body l]
  by blast

lemma broken_lines: "splitlines broken_body = [''vm1 class=AppVM'', ''vm2'']"
  by code_simp

theorem refresh_cache_atomic_witness:
  "fst (refresh_cache (\<lambda>_ _. Inr broken_body) True
          \<lparr>vm_list = Some [(Bytes ''old'', [])], calls = []\<rparr>) = Inl ValueError
   \<and> ''vm2'' \<in> set (splitlines broken_body) \<and> CHR '' '' \<notin> set ''vm2''
   \<and> refresh_cache (\<lambda>_ _. Inr broken_body) True
          \<lparr>vm_list = Some [(Bytes ''old'', [])], calls = []\<rparr>
       = (Inl ValueError, \<lparr>vm_list = Some [(Bytes ''old'', [])], calls = [list_call]\<rparr>)
   \<and> vm_list (snd (refresh_cache (\<lambda>_ _. Inr broken_body) True
          \<lparr>vm_list = Some [(Bytes ''old'', [])], calls = []\<rparr>)) = Some [(Bytes ''old'', [])]
   \<and> vm_list (snd (refresh_cache (\<lambda>_ _. Inr scenario_body) True
          \<lparr>vm_list = Some [], calls = []\<rparr>)) \<noteq> vm_list \<lparr>vm_list = Some [], calls = []\<rparr>
   \<and> fst (refresh_cache (\<lambda>_ _. Inr scenario_body) True \<lparr>vm_list = Some [], calls = []\<rparr>) = Inr ()"
proof -
  have l: "''vm2'' \<in> set (splitlines broken_body)" by (simp add: broken_lines)
  have n: "CHR '' '' \<notin> set ''vm2''" by simp
  have r: "refresh_cache (\<lambda>_ _. Inr broken_body) True
          \<lparr>vm_list = Some [(Bytes ''old'', [])], calls = []\<rparr>
       = (Inl ValueError, \<lparr>vm_list = Some [(Bytes ''old'', [])], calls = [list_call]\<rparr>)"
    using refresh_cache_atomic
      [of "\<lambda>_ _. Inr broken_body" True "\<lparr>vm_list = Some [(Bytes ''old'', [])], calls = []\<rparr>"
          ValueError broken_body "''vm2''"] l n
    by simp
  have c: "vm_list (snd (refresh_cache (\<lambda>_ _. Inr scenario_body) True
          \<lparr>vm_list = Some [], calls = []\<rparr>)) \<noteq> vm_list \<lparr>vm_list = Some [], calls = []\<rparr>"
    by (simp add: scenario_refresh)
  have o: "fst (refresh_cache (\<lambda>_ _. Inr scenario_body) True \<lparr>vm_list = Some [], calls = []\<rparr>) = Inr ()"
    by (simp add: scenario_refresh)
  from l n r c o show ?thesis by simp
qed

lemma contains_Str:
  assumes "cache_inv s"
  shows "(\<exists>e. fst (contains app (Str n) s) = Inl e) \<or> fst (contains app (Str n) s) = Inr False"
proof (cases "refresh_cache app False s")
  case (Pair r s1)
  have "cache_inv (snd (refresh_cache app False s))" using assms by (rule refresh_cache_inv)
  with Pair have i: "cache_inv s1" by simp
  show ?thesis
  proof (cases "vm_list s1")
    case None
    with Pair show ?thesis by (auto simp: contains_def split: sum.splits)
  next
    case (Some d)
    with i have "bytes_keyed d" by (simp add: cache_inv_def)
    then have "map_of d (Str n) = None"
      by (cases "map_of d (Str n)") (auto dest: bytes_keyed_lookup)
    with Pair Some show ?thesis by (auto simp: contains_def split: sum.splits)
  qed
qed

lemma getitem_of_contains:
  "fst (getitem app item s) =
     (case fst (contains app item s) of
        Inl e \<Rightarrow> Inl e
      | Inr False \<Rightarrow> Inl (KeyError item)
      | Inr True \<Rightarrow>
         (case vm_list (snd (contains app item s)) of
            None \<Rightarrow> Inl TypeError
          | Some d \<Rightarrow>
             (case map_of d item of
                None \<Rightarrow> Inl (KeyError item)
              | Some ps \<Rightarrow>
                 (case map_of ps (Str ''class'') of
                    None \<Rightarrow> Inl (KeyError (Str ''class''))
                  | Some c \<Rightarrow> Inr (QubesVM item c)))))"
  by (auto simp: getitem_def split: prod.splits sum.splits bool.splits option.splits)

lemma contains_True:
  assumes "fst (contains app item s) = Inr True"
  obtains d ps where "vm_list (snd (contains app item s)) = Some d" and "map_of d item = Some ps"
  using assms by (auto simp: contains_def split: prod.splits sum.splits option.splits)

lemma getitem_present:
  assumes "fst (contains app item s) = Inr True"
  shows "\<exists>d ps. vm_list (snd (contains app item s)) = Some d \<and> map_of d item = Some ps
           \<and> fst (getitem app item s) =
               (case map_of ps (Str ''class'') of
                  None \<Rightarrow> Inl (KeyError (Str ''class''))
                | Some c \<Rightarrow> Inr (QubesVM item c))"
proof -
  from assms obtain d ps where d: "vm_list (snd (contains app item s)) = Some d"
    and p: "map_of d item = Some ps"
    by (rule contains_True)
  then show ?thesis using assms by (simp add: getitem_of_contains)
qed

lemma getitem_present_inv:
  assumes "cache_inv s" and "fst (contains app item s) = Inr True"
  shows "fst (getitem app item s) = Inl (KeyError (Str ''class''))"
proof -
  from getitem_present [OF assms(2)] obtain d ps
    where d: "vm_list (snd (contains app item s)) = Some d"
      and p: "map_of d item = Some ps"
      and g: "fst (getitem app item s) =
               (case map_of ps (Str ''class'') of
                  None \<Rightarrow> Inl (KeyError (Str ''class''))
                | Some c \<Rightarrow> Inr (QubesVM item c))"
    by blast
  have "cache_inv (snd (contains app item s))"
    using assms(1) by (simp add: contains_state refresh_cache_inv)
  with d have "bytes_keyed d" by (simp add: cache_inv_def)
  from bytes_keyed_lookup [OF this p] have "map_of ps (Str ''class'') = None"
    by (simp add: map_of_bytes_keyed_Str)
  with g show ?thesis by simp
qed

lemma getitem_never_returns:
  assumes "cache_inv s"
  shows "fst (getitem app item s) \<noteq> Inr w"
proof (cases "fst (contains app item s)")
  case (Inl e)
  then show ?thesis by (simp add: getitem_of_contains)
next
  case (Inr b)
  show ?thesis
  proof (cases b)
    case True
    with Inr getitem_present_inv [OF assms] show ?thesis by simp
  next
    case False
    with Inr show ?thesis by (simp add: getitem_of_contains)
  qed
qed

lemma getitem_Str:
  assumes "cache_inv s"
  shows "(\<exists>e. fst (contains app (Str n) s) = Inl e \<and> fst (getitem app (Str n) s) = Inl e)
       \<or> (fst (contains app (Str n) s) = Inr False
           \<and> fst (getitem app (Str n) s) = Inl (KeyError (Str n)))"
  using contains_Str [OF assms, of app n] by (auto simp: getitem_of_contains)

lemma init_inv: "cache_inv VMCollection_init"
  by (simp add: cache_inv_def VMCollection_init_def)

lemma built_keyed: "build_vm_list ls [] = Inr d \<Longrightarrow> bytes_keyed d"
  by (erule build_vm_list_keyed) (simp add: bytes_keyed_def)

text \<open>
  Claim C10. The empty collection satisfies the invariant, every map built from a
  response is keyed by \<open>bytes\<close>, and \<open>refresh_cache\<close>, \<open>__contains__\<close>,
  \<open>__getitem__\<close>, \<open>keys\<close> and \<open>__iter__\<close> preserve the invariant. Under the invariant
  a \<open>str\<close> name is never found: the membership test is false and the lookup raises
  \<open>KeyError\<close> of that name (unless the refresh itself raised). A lookup whose
  membership test succeeded indexes the property dictionary of the entity with the
  \<open>str\<close> key \<open>'class'\<close>; under the invariant that raises \<open>KeyError('class')\<close>, so no
  lookup returns a wrapper.
\<close>

theorem cache_keyed_by_bytes:
  "cache_inv VMCollection_init
   \<and> (build_vm_list (splitlines body) [] = Inr d \<longrightarrow> bytes_keyed d)
   \<and> (cache_inv s \<longrightarrow>
        cache_inv (snd (refresh_cache app force s))
      \<and> cache_inv (snd (contains app item s))
      \<and> cache_inv (snd (getitem app item s))
      \<and> cache_inv (snd (keys app s))
      \<and> cache_inv (snd (iter app s))
      \<and> ((\<exists>e. fst (contains app (Str n) s) = Inl e \<and> fst (getitem app (Str n) s) = Inl e)
          \<or> (fst (contains app (Str n) s) = Inr False
              \<and> fst (getitem app (Str n) s) = Inl (KeyError (Str n))))
      \<and> (fst (contains app item s) = Inr True \<longrightarrow>
            fst (getitem app item s) = Inl (KeyError (Str ''class'')))
      \<and> (\<forall>w. fst (getitem app item s) \<noteq> Inr w))
   \<and> (fst (contains app item s) = Inr True \<longrightarrow>
        (\<exists>d ps. vm_list (snd (contains app item s)) = Some d \<and> map_of d item = Some ps
           \<and> fst (getitem app item s) =
               (case map_of ps (Str ''class'') of
                  None \<Rightarrow> Inl (KeyError (Str ''class''))
                | Some c \<Rightarrow> Inr (QubesVM item c))))"
  using init_inv built_keyed [of "splitlines body" d] refresh_cache_inv [of s app force]
    refresh_cache_inv [of s app False] iter_inv [of s app] getitem_Str [of s app n]
    getitem_present_inv [of s app item] getitem_present [of app item s]
    getitem_never_returns [of s app item]
  by (simp add: contains_state getitem_state keys_state)

lemma scenario_init_refresh:
  "refresh_cache (\<lambda>_ _. Inr scenario_body) False VMCollection_init =
     (Inr (), \<lparr>vm_list = Some
        [(Bytes ''vm1'', [(Bytes ''class'', Bytes ''AppVM''), (Bytes ''state'', Bytes ''running'')]),
         (Bytes ''vm2'', [(Bytes ''class'', Bytes ''TemplateVM''), (Bytes ''state'', Bytes ''halted'')])],
        calls = [list_call]\<rparr>)"
  by code_simp

lemma scenario_contains_bytes:
  "fst (contains (\<lambda>_ _. Inr scenario_body) (Bytes ''vm1'') VMCollection_init) = Inr True"
  by (simp add: contains_def scenario_init_refresh)

lemma scenario_build:
  "build_vm_list (splitlines scenario_body) [] = Inr
        [(Bytes ''vm1'', [(Bytes ''class'', Bytes ''AppVM''), (Bytes ''state'', Bytes ''running'')]),
         (Bytes ''vm2'', [(Bytes ''class'', Bytes ''TemplateVM''), (Bytes ''state'', Bytes ''halted'')])]"
  by code_simp

theorem cache_keyed_by_bytes_witness:
  "cache_inv VMCollection_init
   \<and> build_vm_list (splitlines scenario_body) [] = Inr
        [(Bytes ''vm1'', [(Bytes ''class'', Bytes ''AppVM''), (Bytes ''state'', Bytes ''running'')]),
         (Bytes ''vm2'', [(Bytes ''class'', Bytes ''TemplateVM''), (Bytes ''state'', Bytes ''halted'')])]
   \<and> bytes_keyed
        [(Bytes ''vm1'', [(Bytes ''class'', Bytes ''AppVM''), (Bytes ''state'', Bytes ''running'')]),
         (Bytes ''vm2'', [(Bytes ''class'', Bytes ''TemplateVM''), (Bytes ''state'', Bytes ''halted'')])]
   \<and> fst (contains (\<lambda>_ _. Inr scenario_body) (Bytes ''vm1'') VMCollection_init) = Inr True
   \<and> fst (getitem (\<lambda>_ _. Inr scenario_body) (Bytes ''vm1'') VMCollection_init)
       = Inl (KeyError (Str ''class''))
   \<and> cache_inv (snd (refresh_cache (\<lambda>_ _. Inr scenario_body) True VMCollection_init))
   \<and> cache_inv (snd (iter (\<lambda>_ _. Inr scenario_body) VMCollection_init))"
  using cache_keyed_by_bytes
    [of scenario_body
        "[(Bytes ''vm1'', [(Bytes ''class'', Bytes ''AppVM''), (Bytes ''state'', Bytes ''running'')]),
         (Bytes ''vm2'', [(Bytes ''class'', Bytes ''TemplateVM''), (Bytes ''state'', Bytes ''halted'')])]"
        VMCollection_init "\<lambda>_ _. Inr scenario_body" True "Bytes ''vm1''" "''vm1''"]
    scenario_contains_bytes scenario_build
  by simp

lemma scenario_keys:
  "fst (keys (\<lambda>_ _. Inr scenario_body) VMCollection_init) = Inr [Bytes ''vm1'', Bytes ''vm2'']"
  by (simp add: keys_def scenario_init_refresh)

lemma scenario_contains_str:
  "fst (contains (\<lambda>_ _. Inr scenario_body) (Str ''vm1'') VMCollection_init) = Inr False"
  by (simp add: contains_def scenario_init_refresh)

lemma scenario_getitem_absent:
  "fst (getitem (\<lambda>_ _. Inr scenario_body) (Str ''vm3'') VMCollection_init)
     = Inl (KeyError (Str ''vm3''))"
  by (simp add: getitem_def contains_def scenario_init_refresh)

lemma scenario_getitem_present:
  "fst (getitem (\<lambda>_ _. Inr scenario_body) (Bytes ''vm1'') VMCollection_init)
     = Inl (KeyError (Str ''class''))"
  by (simp add: getitem_def contains_def scenario_init_refresh)

lemma scenario_getitem_str:
  "fst (getitem (\<lambda>_ _. Inr scenario_body) (Str ''vm1'') VMCollection_init)
     = Inl (KeyError (Str ''vm1''))"
  by (simp add: getitem_def contains_def scenario_init_refresh)

text \<open>
  Claim C3. With the two-line body of the scenario the cache holds the two names
  \<open>b'vm1'\<close> and \<open>b'vm2'\<close>, the membership test of \<open>b'vm1'\<close> is true and the lookup of
  the absent \<open>'vm3'\<close> raises \<open>KeyError\<close>, as the claim says. Against the claim, the
  membership test of the text name \<open>'vm1'\<close> is false, and the lookup of the present
  name \<open>b'vm1'\<close> does not return a wrapper with the class of the entity: it raises
  \<open>KeyError('class')\<close>.
\<close>

theorem vm_list_scenario:
  "fst (keys (\<lambda>_ _. Inr scenario_body) VMCollection_init) = Inr [Bytes ''vm1'', Bytes ''vm2'']
   \<and> fst (contains (\<lambda>_ _. Inr scenario_body) (Bytes ''vm1'') VMCollection_init) = Inr True
   \<and> fst (contains (\<lambda>_ _. Inr scenario_body) (Str ''vm1'') VMCollection_init) = Inr False
   \<and> fst (getitem (\<lambda>_ _. Inr scenario_body) (Str ''vm3'') VMCollection_init)
       = Inl (KeyError (Str ''vm3''))
   \<and> fst (getitem (\<lambda>_ _. Inr scenario_body) (Bytes ''vm1'') VMCollection_init)
       = Inl (KeyError (Str ''class''))
   \<and> fst (getitem (\<lambda>_ _. Inr scenario_body) (Str ''vm1'') VMCollection_init)
       = Inl (KeyError (Str ''vm1''))"
  using scenario_keys scenario_contains_bytes scenario_contains_str scenario_getitem_absent
    scenario_getitem_present scenario_getitem_str
  by simp

end
